theory Spec2Isabelle
  imports Main "HOL-Library.AList" "HOL-Library.Multiset"
begin

section \<open>Data model\<close>

text \<open>
  The handler \<^verbatim>\<open>application/handlers/get_birthdays_handler.py\<close> works on citizen
  documents projected to the two keys it reads, \<^verbatim>\<open>birth_date\<close> (a Python
  \<^verbatim>\<open>datetime\<close>) and \<^verbatim>\<open>relatives\<close> (a list of citizen ids). Python integers are
  unbounded, hence \<open>int\<close>.
\<close>

record date =
  year :: int
  month :: int
  day :: int

record citizen =
  birth_date :: date
  relatives :: "int list"

text \<open>One entry \<^verbatim>\<open>{'citizen_id': key, 'presents': value}\<close> of a month's list.\<close>

record present =
  citizen_id :: int
  presents :: int

text \<open>
  Python dictionaries keep insertion order, so a dictionary is an association list:
  a new key goes to the end, an existing key keeps its place.
\<close>

type_synonym birthdays_data = "(int \<times> (int \<times> int) list) list"
type_synonym months = "(string \<times> present list) list"

text \<open>The returned dictionary \<^verbatim>\<open>{'data': months}\<close>.\<close>

datatype report = Report (data: months)

text \<open>
  A \<^verbatim>\<open>datetime\<close> always has its month in 1..12; the record type is wider, so the
  range is a predicate on the input.
\<close>

definition valid_date :: "date \<Rightarrow> bool" where
  "valid_date d \<longleftrightarrow> 1 \<le> month d \<and> month d \<le> 12"

definition valid_citizens :: "citizen list \<Rightarrow> bool" where
  "valid_citizens citizens \<longleftrightarrow> list_all (\<lambda>c. valid_date (birth_date c)) citizens"

section \<open>Python primitives used by the handler\<close>

text \<open>\<^verbatim>\<open>str(i)\<close> for an integer: decimal digits, with a leading minus sign when negative.\<close>

definition digit_char :: "nat \<Rightarrow> char" where
  "digit_char d = ''0123456789'' ! d"

fun digits :: "nat \<Rightarrow> string" where
  "digits n = (if n < 10 then [digit_char n] else digits (n div 10) @ [digit_char (n mod 10)])"

declare digits.simps [simp del]

definition str :: "int \<Rightarrow> string" where
  "str i = (if i < 0 then CHR ''-'' # digits (nat (- i)) else digits (nat i))"

text \<open>
  \<^verbatim>\<open>dd[k] = f(dd[k])\<close> on a \<^verbatim>\<open>defaultdict\<close> whose factory yields \<open>d\<close>: a missing key
  is first created with the default, at the end of the dictionary.
\<close>

fun dd_apply :: "'k \<Rightarrow> 'v \<Rightarrow> ('v \<Rightarrow> 'v) \<Rightarrow> ('k \<times> 'v) list \<Rightarrow> ('k \<times> 'v) list" where
  "dd_apply k d f [] = [(k, f d)]"
| "dd_apply k d f ((k', v) # kvs) =
     (if k' = k then (k', f v) # kvs else (k', v) # dd_apply k d f kvs)"

text \<open>\<^verbatim>\<open>dict[k] = v\<close> on a plain dictionary.\<close>

fun setitem :: "'k \<Rightarrow> 'v \<Rightarrow> ('k \<times> 'v) list \<Rightarrow> ('k \<times> 'v) list" where
  "setitem k v [] = [(k, v)]"
| "setitem k v ((k', v') # kvs) =
     (if k' = k then (k', v) # kvs else (k', v') # setitem k v kvs)"

section \<open>The aggregation\<close>

text \<open>
  \<^verbatim>\<open>_get_birthdays_data\<close> (the leading underscore of the Python names is dropped):
  \<^verbatim>\<open>
  birthdays_data = defaultdict(lambda: defaultdict(int))
  for citizen in citizens:
      for relative_id in citizen['relatives']:
          birthdays_data[citizen['birth_date'].month][relative_id] += 1
  return birthdays_data
  \<close>
  The inner loop and the outer loop are one recursive function each.
\<close>

fun relatives_loop :: "int \<Rightarrow> int list \<Rightarrow> birthdays_data \<Rightarrow> birthdays_data" where
  "relatives_loop m [] bd = bd"
| "relatives_loop m (relative_id # rest) bd =
     relatives_loop m rest (dd_apply m [] (dd_apply relative_id 0 (\<lambda>n. n + 1)) bd)"

fun citizens_loop :: "citizen list \<Rightarrow> birthdays_data \<Rightarrow> birthdays_data" where
  "citizens_loop [] bd = bd"
| "citizens_loop (c # rest) bd =
     citizens_loop rest (relatives_loop (month (birth_date c)) (relatives c) bd)"

definition get_birthdays_data :: "citizen list \<Rightarrow> birthdays_data" where
  "get_birthdays_data citizens = citizens_loop citizens []"

text \<open>
  \<^verbatim>\<open>_get_birthdays_representation\<close>:
  \<^verbatim>\<open>
  months = {str(i): [] for i in range(1, 13)}
  for month in birthdays_data:
      months[str(month)] = [{'citizen_id': key, 'presents': value}
                            for key, value in birthdays_data[month].items()]
  return {'data': months}
  \<close>
\<close>

definition months_init :: months where
  "months_init = map (\<lambda>i. (str i, [])) [1..12]"

definition presents_of :: "(int \<times> int) list \<Rightarrow> present list" where
  "presents_of items = map (\<lambda>(key, value). \<lparr>citizen_id = key, presents = value\<rparr>) items"

fun months_loop :: "birthdays_data \<Rightarrow> months \<Rightarrow> months" where
  "months_loop [] ms = ms"
| "months_loop ((m, items) # rest) ms =
     months_loop rest (setitem (str m) (presents_of items) ms)"

definition get_birthdays_representation :: "birthdays_data \<Rightarrow> report" where
  "get_birthdays_representation bd = Report (months_loop bd months_init)"

text \<open>The aggregator: the two steps as \<^verbatim>\<open>get_birthdays\<close> composes them.\<close>

definition aggregate :: "citizen list \<Rightarrow> report" where
  "aggregate citizens = get_birthdays_representation (get_birthdays_data citizens)"

section \<open>The stores and the lock\<close>

text \<open>
  What \<^verbatim>\<open>get_birthdays\<close> raises is a value: \<open>LockTimeout\<close> when a lease is not
  obtained within the timeout, \<open>NotFound\<close> when the import does not exist,
  \<open>StoreUnavailable\<close> for a \<^verbatim>\<open>PyMongoError\<close> of a database call.
\<close>

datatype error = LockTimeout | NotFound | StoreUnavailable

text \<open>The three database calls made under the locks.\<close>

datatype db_op = FindBirthdays | FindImport | InsertBirthdays

text \<open>
  What the lock manager is asked to do, in order: \<open>Acquire key owner expire timeout\<close>
  for a lease obtained, \<open>Release key owner\<close> for the release at the end of a
  \<^verbatim>\<open>with\<close> block.
\<close>

datatype lock_event = Acquire string string int int | Release string string

text \<open>
  The state outside the handler: the collection \<^verbatim>\<open>db['imports']\<close> (documents
  \<^verbatim>\<open>{'import_id', 'citizens'}\<close>), the collection \<^verbatim>\<open>db['birthdays']\<close> (documents
  \<^verbatim>\<open>{'import_id', 'data'}\<close>, in insertion order, with no uniqueness constraint on
  \<^verbatim>\<open>import_id\<close>), which database calls currently fail, the leases currently held
  (key to owner), and the log of lock events.
\<close>

record world =
  imports_coll :: "(int \<times> citizen list) list"
  birthdays_coll :: "(int \<times> months) list"
  unavailable :: "db_op \<Rightarrow> bool"
  held :: "string \<rightharpoonup> string"
  events :: "lock_event list"

text \<open>\<^verbatim>\<open>find_one({'import_id': import_id})\<close>: the first matching document, or \<open>None\<close>.\<close>

fun find_one :: "int \<Rightarrow> (int \<times> 'a) list \<Rightarrow> 'a option" where
  "find_one import_id [] = None"
| "find_one import_id ((i, doc) # docs) =
     (if i = import_id then Some doc else find_one import_id docs)"

text \<open>
  \<^verbatim>\<open>_get_cached_birthdays\<close>: the projection \<^verbatim>\<open>{'_id': 0, 'import_id': 0}\<close> leaves
  the dictionary \<^verbatim>\<open>{'data': months}\<close> of the stored document.
\<close>

definition get_cached_birthdays :: "int \<Rightarrow> world \<Rightarrow> error + report option" where
  "get_cached_birthdays import_id w =
     (if unavailable w FindBirthdays then Inl StoreUnavailable
      else Inr (map_option Report (find_one import_id (birthdays_coll w))))"

text \<open>
  Modelled from the spec: \<^verbatim>\<open>shared.get_citizens\<close> (module
  \<^verbatim>\<open>application/handlers/shared.py\<close>, not among the sources). The spec's
  DatasetReader returns the residents of the dataset, projected to \<^verbatim>\<open>birth_date\<close>
  and \<^verbatim>\<open>relatives\<close>, or fails with \<open>NotFound\<close> if no dataset with that identifier
  exists.
\<close>

definition get_citizens :: "int \<Rightarrow> world \<Rightarrow> error + citizen list" where
  "get_citizens import_id w =
     (if unavailable w FindImport then Inl StoreUnavailable
      else case find_one import_id (imports_coll w) of
             None \<Rightarrow> Inl NotFound
           | Some citizens \<Rightarrow> Inr citizens)"

text \<open>
  \<^verbatim>\<open>_cache_birthdays_data\<close>: \<^verbatim>\<open>insert_one\<close> of
  \<^verbatim>\<open>{'import_id': import_id, 'data': birthdays_data['data']}\<close>.
\<close>

definition cache_birthdays_data :: "int \<Rightarrow> report \<Rightarrow> world \<Rightarrow> error + world" where
  "cache_birthdays_data import_id birthdays_data w =
     (if unavailable w InsertBirthdays then Inl StoreUnavailable
      else Inr (w\<lparr>birthdays_coll := birthdays_coll w @ [(import_id, data birthdays_data)]\<rparr>))"

text \<open>
  Modelled from the spec: the LockManager of the spec (the library \<^verbatim>\<open>mongolock\<close>,
  not among the sources). A lease on a key is granted when no lease on that key is
  held; otherwise the acquisition fails with \<open>LockTimeout\<close>. Releasing removes the
  lease only for its holder. Expiry of an abandoned lease with the passing of time is
  outside this model.
\<close>

definition lock :: "string \<Rightarrow> string \<Rightarrow> int \<Rightarrow> int \<Rightarrow> world \<Rightarrow> error + world" where
  "lock key owner expire timeout w =
     (case held w key of
        Some holder \<Rightarrow> Inl LockTimeout
      | None \<Rightarrow> Inr (w\<lparr>held := (held w)(key \<mapsto> owner),
                        events := events w @ [Acquire key owner expire timeout]\<rparr>))"

text \<open>
  Modelled from the spec: the release of the LockManager (the library \<^verbatim>\<open>mongolock\<close>,
  not among the sources). It never fails, and frees the key only when the caller is
  its holder.
\<close>

definition release :: "string \<Rightarrow> string \<Rightarrow> world \<Rightarrow> world" where
  "release key owner w =
     w\<lparr>held := (if held w key = Some owner then (held w)(key := None) else held w),
       events := events w @ [Release key owner]\<rparr>"

text \<open>
  \<^verbatim>\<open>with lock(key, owner, expire=..., timeout=...): body\<close>. The lease is taken on
  entry; the block is left through \<open>release\<close> whether the body returns or raises.
\<close>

definition with_lock ::
  "string \<Rightarrow> string \<Rightarrow> int \<Rightarrow> int \<Rightarrow> (world \<Rightarrow> (error + 'a) \<times> world) \<Rightarrow> world
    \<Rightarrow> (error + 'a) \<times> world" where
  "with_lock key owner expire timeout body w =
     (case lock key owner expire timeout w of
        Inl e \<Rightarrow> (Inl e, w)
      | Inr w1 \<Rightarrow> (case body w1 of (r, w2) \<Rightarrow> (r, release key owner w2)))"

section \<open>The handler\<close>

text \<open>The body of the \<^verbatim>\<open>with\<close> statement of \<^verbatim>\<open>get_birthdays\<close>.\<close>

definition guarded :: "int \<Rightarrow> world \<Rightarrow> (error + report \<times> int) \<times> world" where
  "guarded import_id w =
     (case get_cached_birthdays import_id w of
        Inl e \<Rightarrow> (Inl e, w)
      | Inr (Some cached_birthdays_data) \<Rightarrow> (Inr (cached_birthdays_data, 201), w)
      | Inr None \<Rightarrow>
          (case get_citizens import_id w of
             Inl e \<Rightarrow> (Inl e, w)
           | Inr citizens \<Rightarrow>
               (let birthdays_data = get_birthdays_data citizens;
                    birthdays_data = get_birthdays_representation birthdays_data
                in case cache_birthdays_data import_id birthdays_data w of
                     Inl e \<Rightarrow> (Inl e, w)
                   | Inr w' \<Rightarrow> (Inr (birthdays_data, 201), w'))))"

text \<open>
  \<^verbatim>\<open>get_birthdays\<close>; \<open>pid\<close> is the value of \<^verbatim>\<open>os.getpid()\<close>. The statement
  \<^verbatim>\<open>with A, B: body\<close> is \<^verbatim>\<open>with A: with B: body\<close>.
\<close>

definition get_birthdays :: "int \<Rightarrow> int \<Rightarrow> world \<Rightarrow> (error + report \<times> int) \<times> world" where
  "get_birthdays import_id pid w =
     with_lock (str import_id) (str pid) 60 10
       (with_lock (''birthdays_'' @ str import_id) (str pid) 60 10 (guarded import_id)) w"

text \<open>Sequential calls for one import, one per process id of the list.\<close>

fun get_birthdays_seq ::
  "int \<Rightarrow> int list \<Rightarrow> world \<Rightarrow> (error + report \<times> int) list \<times> world" where
  "get_birthdays_seq import_id [] w = ([], w)"
| "get_birthdays_seq import_id (pid # pids) w =
     (case get_birthdays import_id pid w of
        (r, w1) \<Rightarrow> (case get_birthdays_seq import_id pids w1 of
                      (rs, w2) \<Rightarrow> (r # rs, w2)))"

section \<open>Reference notions the properties are stated with\<close>

text \<open>
  The number of times \<open>r\<close> is listed as a relative by citizens born in month \<open>m\<close>,
  every occurrence counted.
\<close>

definition gift_count :: "citizen list \<Rightarrow> int \<Rightarrow> int \<Rightarrow> int" where
  "gift_count citizens m r =
     (\<Sum>c\<leftarrow>citizens. if month (birth_date c) = m then int (count_list (relatives c) r) else 0)"

text \<open>The list reported under the key of month \<open>m\<close>; empty when the key is absent.\<close>

definition month_entries :: "report \<Rightarrow> int \<Rightarrow> present list" where
  "month_entries rep m = (case map_of (data rep) (str m) of None \<Rightarrow> [] | Some ps \<Rightarrow> ps)"

text \<open>The twelve keys, in the order the handler creates them.\<close>

definition twelve_months :: "string list" where
  "twelve_months =
     [''1'', ''2'', ''3'', ''4'', ''5'', ''6''] @ [''7'', ''8'', ''9'', ''10'', ''11'', ''12'']"

definition normalized :: "months \<Rightarrow> bool" where
  "normalized ms \<longleftrightarrow> map fst ms = twelve_months"

text \<open>
  What a call for \<open>import_id\<close> serves in world \<open>w\<close> when the import holds
  \<open>citizens\<close>: the cached aggregate if there is one, the fresh aggregate otherwise.
\<close>

definition served :: "int \<Rightarrow> citizen list \<Rightarrow> world \<Rightarrow> report" where
  "served import_id citizens w =
     (case find_one import_id (birthdays_coll w) of
        Some ms \<Rightarrow> Report ms
      | None \<Rightarrow> aggregate citizens)"

text \<open>The collection \<^verbatim>\<open>db['birthdays']\<close> after such a call: one document more if none was cached.\<close>

definition stored :: "int \<Rightarrow> citizen list \<Rightarrow> world \<Rightarrow> (int \<times> months) list" where
  "stored import_id citizens w =
     (case find_one import_id (birthdays_coll w) of
        Some ms \<Rightarrow> birthdays_coll w
      | None \<Rightarrow> birthdays_coll w @ [(import_id, data (aggregate citizens))])"

text \<open>Every stored birth date is a date; every stored aggregate has the twelve keys.\<close>

definition datasets_valid :: "world \<Rightarrow> bool" where
  "datasets_valid w \<longleftrightarrow> list_all (\<lambda>(i, citizens). valid_citizens citizens) (imports_coll w)"

definition store_normalized :: "world \<Rightarrow> bool" where
  "store_normalized w \<longleftrightarrow> list_all (\<lambda>(i, ms). normalized ms) (birthdays_coll w)"

section \<open>Auxiliary notions of the proofs\<close>

text \<open>The counter held for month \<open>m\<close> and relative \<open>r\<close>; 0 when there is none.\<close>

definition cell :: "birthdays_data \<Rightarrow> int \<Rightarrow> int \<Rightarrow> int" where
  "cell bd m r =
     (case map_of bd m of
        None \<Rightarrow> 0
      | Some items \<Rightarrow> (case map_of items r of None \<Rightarrow> 0 | Some n \<Rightarrow> n))"

text \<open>
  What the fold maintains: the keys of the outer and of every inner dictionary are
  distinct, and every counter is at least 1.
\<close>

definition wf_data :: "birthdays_data \<Rightarrow> bool" where
  "wf_data bd \<longleftrightarrow>
     distinct (map fst bd) \<and>
     (\<forall>m items. map_of bd m = Some items \<longrightarrow>
        distinct (map fst items) \<and> (\<forall>r n. map_of items r = Some n \<longrightarrow> 1 \<le> n))"

text \<open>The inner dictionary of month \<open>m\<close> after the fold; empty when the month has none.\<close>

definition items_of :: "citizen list \<Rightarrow> int \<Rightarrow> (int \<times> int) list" where
  "items_of cs m = (case map_of (get_birthdays_data cs) m of None \<Rightarrow> [] | Some items \<Rightarrow> items)"

section \<open>Example inputs\<close>

text \<open>The two residents of the spec's example, as the projection returns them.\<close>

definition example_citizens :: "citizen list" where
  "example_citizens =
     [\<lparr>birth_date = \<lparr>year = 2000, month = 3, day = 5\<rparr>, relatives = [2, 3]\<rparr>,
      \<lparr>birth_date = \<lparr>year = 2001, month = 3, day = 20\<rparr>, relatives = [2]\<rparr>]"

text \<open>The same, with a third resident born in July who lists no relatives.\<close>

definition example_lonely :: "citizen list" where
  "example_lonely =
     example_citizens @ [\<lparr>birth_date = \<lparr>year = 1999, month = 7, day = 14\<rparr>, relatives = []\<rparr>]"

text \<open>
  A world with the example as import 1, nothing cached, every database call available
  and no lease held.
\<close>

definition example_world :: world where
  "example_world =
     \<lparr>imports_coll = [(1, example_citizens)], birthdays_coll = [],
      unavailable = (\<lambda>op. False), held = Map.empty, events = []\<rparr>"

section \<open>Evaluation of the primitives\<close>

lemma digits_small: "n < 10 \<Longrightarrow> digits n = [digit_char n]"
  by (simp add: digits.simps)

lemma digits_large: "\<not> n < 10 \<Longrightarrow> digits n = digits (n div 10) @ [digit_char (n mod 10)]"
  by (subst digits.simps) simp

lemma str_months:
  "str 1 = ''1''" "str 2 = ''2''" "str 3 = ''3''" "str 4 = ''4''"
  "str 5 = ''5''" "str 6 = ''6''" "str 7 = ''7''" "str 8 = ''8''"
  "str 9 = ''9''" "str 10 = ''10''" "str 11 = ''11''" "str 12 = ''12''"
  by (simp_all add: str_def digits_small digits_large digit_char_def)

lemma months_init_eq:
  "months_init =
     [(''1'', []), (''2'', []), (''3'', []), (''4'', []), (''5'', []), (''6'', []),
      (''7'', []), (''8'', []), (''9'', []), (''10'', []), (''11'', []), (''12'', [])]"
  by (simp add: months_init_def upto_rec1 str_months)

section \<open>Dictionaries as association lists\<close>

lemma dd_apply_keys:
  "map fst (dd_apply k d f al) = (if k \<in> fst ` set al then map fst al else map fst al @ [k])"
proof (induction al)
  case Nil
  show ?case by simp
next
  case (Cons p al)
  obtain k' v where p: "p = (k', v)" by (cases p)
  show ?case
  proof (cases "k' = k")
    case True
    then show ?thesis by (simp add: p)
  next
    case False
    with Cons show ?thesis by (simp add: p)
  qed
qed

lemma setitem_keys:
  "map fst (setitem k v al) = (if k \<in> fst ` set al then map fst al else map fst al @ [k])"
proof (induction al)
  case Nil
  show ?case by simp
next
  case (Cons p al)
  obtain k' v' where p: "p = (k', v')" by (cases p)
  show ?case
  proof (cases "k' = k")
    case True
    then show ?thesis by (simp add: p)
  next
    case False
    with Cons show ?thesis by (simp add: p)
  qed
qed

lemma dd_apply_map_of:
  "map_of (dd_apply k d f al) k' =
     (if k' = k then Some (f (case map_of al k of None \<Rightarrow> d | Some v \<Rightarrow> v)) else map_of al k')"
  by (induction al) auto

lemma setitem_map_of: "map_of (setitem k v al) k' = (if k' = k then Some v else map_of al k')"
  by (induction al) auto


lemma dd_apply_distinct:
  "distinct (map fst al) \<Longrightarrow> distinct (map fst (dd_apply k d f al))"
  by (simp add: dd_apply_keys)

lemma setitem_set: "set (setitem k v al) \<subseteq> insert (k, v) (set al)"
  by (induction al) (auto split: if_splits)

section \<open>\<open>str\<close> is injective\<close>

lemma digit_char_mem: "d < 10 \<Longrightarrow> digit_char d \<in> set ''0123456789''"
  unfolding digit_char_def by (rule nth_mem) simp

lemma digit_char_inj: "a < 10 \<Longrightarrow> b < 10 \<Longrightarrow> digit_char a = digit_char b \<Longrightarrow> a = b"
  unfolding digit_char_def
  using nth_eq_iff_index_eq[of "''0123456789''" a b] by simp

lemma digits_nonempty: "digits n \<noteq> []"
  by (subst digits.simps) simp

lemma digits_chars: "set (digits n) \<subseteq> set ''0123456789''"
proof (induction n rule: digits.induct)
  case (1 n)
  show ?case
  proof (cases "n < 10")
    case True
    then show ?thesis using digit_char_mem[of n] by (simp add: digits_small)
  next
    case False
    have "n mod 10 < 10" by simp
    from digit_char_mem[OF this] 1[OF False] False show ?thesis
      by (simp add: digits_large)
  qed
qed

lemma digits_inj: "digits a = digits b \<Longrightarrow> a = b"
proof (induction a arbitrary: b rule: digits.induct)
  case (1 n)
  note eq = \<open>digits n = digits b\<close>
  show ?case
  proof (cases "n < 10")
    case True
    note small = this
    have dn: "digits n = [digit_char n]" by (rule digits_small[OF small])
    show ?thesis
    proof (cases "b < 10")
      case True
      have "digits b = [digit_char b]" by (rule digits_small[OF True])
      with dn eq have "digit_char n = digit_char b" by simp
      with small True show ?thesis by (rule digit_char_inj)
    next
      case False
      have "digits b = digits (b div 10) @ [digit_char (b mod 10)]" by (rule digits_large[OF False])
      with dn eq have "[digit_char n] = digits (b div 10) @ [digit_char (b mod 10)]" by simp
      then have "digits (b div 10) = []" by simp
      with digits_nonempty show ?thesis by blast
    qed
  next
    case False
    note large = this
    have dn: "digits n = digits (n div 10) @ [digit_char (n mod 10)]" by (rule digits_large[OF large])
    show ?thesis
    proof (cases "b < 10")
      case True
      have "digits b = [digit_char b]" by (rule digits_small[OF True])
      with dn eq have "digits (n div 10) @ [digit_char (n mod 10)] = [digit_char b]" by simp
      then have "digits (n div 10) = []" by simp
      with digits_nonempty show ?thesis by blast
    next
      case False
      have "digits b = digits (b div 10) @ [digit_char (b mod 10)]" by (rule digits_large[OF False])
      with dn eq have both:
        "digits (n div 10) @ [digit_char (n mod 10)] = digits (b div 10) @ [digit_char (b mod 10)]"
        by simp
      from both have e1: "digits (n div 10) = digits (b div 10)" by simp
      from both have e2: "digit_char (n mod 10) = digit_char (b mod 10)" by simp
      have q: "n div 10 = b div 10" by (rule "1.IH"[OF large e1])
      have "n mod 10 < 10" and "b mod 10 < 10" by simp_all
      then have r: "n mod 10 = b mod 10" using e2 by (rule digit_char_inj)
      have "n = 10 * (n div 10) + n mod 10" by simp
      also have "\<dots> = 10 * (b div 10) + b mod 10" by (simp only: q r)
      also have "\<dots> = b" by simp
      finally show ?thesis .
    qed
  qed
qed

lemma digits_no_minus: "digits n \<noteq> CHR ''-'' # s"
proof
  assume "digits n = CHR ''-'' # s"
  then have "CHR ''-'' \<in> set (digits n)" by simp
  with digits_chars[of n] show False by auto
qed

lemma str_inj: "str i = str j \<Longrightarrow> i = j"
proof -
  assume eq: "str i = str j"
  show ?thesis
  proof (cases "i < 0")
    case True
    note ineg = this
    show ?thesis
    proof (cases "j < 0")
      case True
      with ineg eq have "digits (nat (- i)) = digits (nat (- j))" by (simp add: str_def)
      then have "nat (- i) = nat (- j)" by (rule digits_inj)
      with ineg True show ?thesis by simp
    next
      case False
      with ineg eq have "digits (nat j) = CHR ''-'' # digits (nat (- i))" by (simp add: str_def)
      with digits_no_minus show ?thesis by blast
    qed
  next
    case False
    note ipos = this
    show ?thesis
    proof (cases "j < 0")
      case True
      with ipos eq have "digits (nat i) = CHR ''-'' # digits (nat (- j))" by (simp add: str_def)
      with digits_no_minus show ?thesis by blast
    next
      case False
      with ipos eq have "digits (nat i) = digits (nat j)" by (simp add: str_def)
      then have "nat i = nat j" by (rule digits_inj)
      with ipos False show ?thesis by simp
    qed
  qed
qed

lemma str_not_birthdays: "str i \<noteq> ''birthdays_'' @ s"
proof
  assume a: "str i = ''birthdays_'' @ s"
  show False
  proof (cases "i < 0")
    case True
    with a show False by (simp add: str_def)
  next
    case False
    with a have "digits (nat i) = CHR ''b'' # ''irthdays_'' @ s" by (simp add: str_def)
    then have "CHR ''b'' \<in> set (digits (nat i))" by simp
    with digits_chars[of "nat i"] have "CHR ''b'' \<in> set ''0123456789''" by blast
    then show False by simp
  qed
qed

section \<open>The fold counts relatives\<close>

lemma wf_data_Nil: "wf_data []"
  by (simp add: wf_data_def)

lemma counter_step_ok:
  assumes "distinct (map fst items)" and "\<forall>r n. map_of items r = Some n \<longrightarrow> 1 \<le> n"
  shows "distinct (map fst (dd_apply r 0 (\<lambda>n. n + 1) items)) \<and>
         (\<forall>r' n. map_of (dd_apply r 0 (\<lambda>n. n + 1) items) r' = Some n \<longrightarrow> (1::int) \<le> n)"
proof (intro conjI allI impI)
  show "distinct (map fst (dd_apply r 0 (\<lambda>n. n + 1) items))"
    using assms(1) by (rule dd_apply_distinct)
next
  fix r' n
  assume h: "map_of (dd_apply r 0 (\<lambda>n. n + 1) items) r' = Some n"
  show "1 \<le> n"
  proof (cases "r' = r")
    case False
    with h have "map_of items r' = Some n" by (simp add: dd_apply_map_of)
    with assms(2) show ?thesis by blast
  next
    case True
    show ?thesis
    proof (cases "map_of items r")
      case None
      with h True show ?thesis by (simp add: dd_apply_map_of)
    next
      case (Some v)
      with assms(2) have "1 \<le> v" by blast
      with h True Some show ?thesis by (simp add: dd_apply_map_of)
    qed
  qed
qed

lemma wf_data_step:
  assumes "wf_data bd"
  shows "wf_data (dd_apply m [] (dd_apply r 0 (\<lambda>n. n + 1)) bd)"
  unfolding wf_data_def
proof (intro conjI allI impI)
  show "distinct (map fst (dd_apply m [] (dd_apply r 0 (\<lambda>n. n + 1)) bd))"
    using assms by (simp add: wf_data_def dd_apply_distinct)
next
  fix m' items
  assume h: "map_of (dd_apply m [] (dd_apply r 0 (\<lambda>n. n + 1)) bd) m' = Some items"
  have goal: "distinct (map fst items) \<and> (\<forall>r n. map_of items r = Some n \<longrightarrow> 1 \<le> n)"
  proof (cases "m' = m")
    case False
    with h have "map_of bd m' = Some items" by (simp add: dd_apply_map_of)
    with assms show ?thesis unfolding wf_data_def by blast
  next
    case True
    show ?thesis
    proof (cases "map_of bd m")
      case None
      with h True have "items = dd_apply r 0 (\<lambda>n. n + 1) []" by (simp add: dd_apply_map_of)
      then show ?thesis by simp
    next
      case (Some old)
      with assms have old: "distinct (map fst old)" "\<forall>r n. map_of old r = Some n \<longrightarrow> 1 \<le> n"
        unfolding wf_data_def by blast+
      from h True Some have "items = dd_apply r 0 (\<lambda>n. n + 1) old"
        by (simp add: dd_apply_map_of)
      with counter_step_ok[OF old] show ?thesis by simp
    qed
  qed
  from goal show "distinct (map fst items)" by simp
  from goal show "\<And>r n. map_of items r = Some n \<Longrightarrow> 1 \<le> n" by blast
qed

lemma cell_step:
  "cell (dd_apply m [] (dd_apply r 0 (\<lambda>n. n + 1)) bd) m' r' =
     cell bd m' r' + (if m' = m \<and> r' = r then 1 else 0)"
  by (simp add: cell_def dd_apply_map_of split: option.splits)

lemma keys_step:
  "fst ` set (dd_apply m d f bd) = insert m (fst ` set bd)"
proof -
  have "set (map fst (dd_apply m d f bd)) = insert m (set (map fst bd))"
    by (simp only: dd_apply_keys) auto
  then show ?thesis by simp
qed

lemma relatives_loop_wf: "wf_data bd \<Longrightarrow> wf_data (relatives_loop m rs bd)"
  by (induction rs arbitrary: bd) (simp_all add: wf_data_step)

lemma relatives_loop_cell:
  "cell (relatives_loop m rs bd) m' r' =
     cell bd m' r' + (if m' = m then int (count_list rs r') else 0)"
  by (induction rs arbitrary: bd) (simp_all add: cell_step)

lemma relatives_loop_keys:
  "fst ` set (relatives_loop m rs bd) = (if rs = [] then {} else {m}) \<union> fst ` set bd"
  by (induction rs arbitrary: bd) (auto simp: keys_step)

lemma citizens_loop_wf: "wf_data bd \<Longrightarrow> wf_data (citizens_loop cs bd)"
  by (induction cs arbitrary: bd) (simp_all add: relatives_loop_wf)

lemma citizens_loop_cell:
  "cell (citizens_loop cs bd) m r = cell bd m r + gift_count cs m r"
  by (induction cs arbitrary: bd) (simp_all add: relatives_loop_cell gift_count_def)

lemma citizens_loop_keys:
  "fst ` set (citizens_loop cs bd) =
     {month (birth_date c) | c. c \<in> set cs \<and> relatives c \<noteq> []} \<union> fst ` set bd"
  by (induction cs arbitrary: bd) (auto simp: relatives_loop_keys)

lemma data_wf: "wf_data (get_birthdays_data cs)"
  by (simp add: get_birthdays_data_def citizens_loop_wf wf_data_Nil)

lemma data_cell: "cell (get_birthdays_data cs) m r = gift_count cs m r"
  by (simp add: get_birthdays_data_def citizens_loop_cell) (simp add: cell_def)

lemma data_keys:
  "fst ` set (get_birthdays_data cs) =
     {month (birth_date c) | c. c \<in> set cs \<and> relatives c \<noteq> []}"
  by (simp add: get_birthdays_data_def citizens_loop_keys)

section \<open>The twelve-month representation\<close>

lemma months_init_keys: "map fst months_init = twelve_months"
  by (simp add: months_init_eq twelve_months_def)

lemma months_init_values: "(k, ps) \<in> set months_init \<Longrightarrow> ps = []"
  by (auto simp: months_init_def)

lemma months_init_map_of: "map_of months_init k = Some ps \<Longrightarrow> ps = []"
  by (rule months_init_values[of k]) (erule map_of_SomeD)

lemma month_cases:
  assumes "1 \<le> m" and "m \<le> 12"
  shows "m \<in> {1, 2, 3, 4, 5, 6, 7, 8, 9, 10, 11, 12 :: int}"
  using assms by simp presburger

lemma str_month_key: "1 \<le> m \<Longrightarrow> m \<le> 12 \<Longrightarrow> str m \<in> set twelve_months"
  using month_cases[of m] by (auto simp: str_months twelve_months_def)

lemma months_init_month: "1 \<le> m \<Longrightarrow> m \<le> 12 \<Longrightarrow> map_of months_init (str m) = Some []"
proof -
  assume "1 \<le> m" "m \<le> 12"
  then have "str m \<in> fst ` set months_init"
    using str_month_key[of m] months_init_keys by (metis set_map)
  then obtain ps where "map_of months_init (str m) = Some ps"
    by (metis domD dom_map_of_conv_image_fst)
  with months_init_map_of show ?thesis by blast
qed

lemma months_loop_keys:
  "\<forall>m \<in> fst ` set bd. str m \<in> set (map fst ms) \<Longrightarrow> map fst (months_loop bd ms) = map fst ms"
proof (induction bd arbitrary: ms)
  case Nil
  show ?case by simp
next
  case (Cons p bd)
  obtain m items where p: "p = (m, items)" by (cases p)
  from Cons.prems have here: "str m \<in> fst ` set ms" and rest: "\<forall>m \<in> fst ` set bd. str m \<in> set (map fst ms)"
    by (simp_all add: p)
  have keys: "map fst (setitem (str m) (presents_of items) ms) = map fst ms"
    using here by (simp add: setitem_keys)
  have "map fst (months_loop bd (setitem (str m) (presents_of items) ms)) =
        map fst (setitem (str m) (presents_of items) ms)"
    by (rule Cons.IH) (simp only: keys, rule rest)
  then show ?case by (simp add: p keys)
qed

lemma months_loop_key_set:
  "set (map fst (months_loop bd ms)) = set (map fst ms) \<union> str ` fst ` set bd"
proof (induction bd arbitrary: ms)
  case Nil
  show ?case by simp
next
  case (Cons p bd)
  obtain m items where p: "p = (m, items)" by (cases p)
  have "set (map fst (setitem (str m) (presents_of items) ms)) = insert (str m) (set (map fst ms))"
    by (simp only: setitem_keys) auto
  with Cons.IH[of "setitem (str m) (presents_of items) ms"] show ?case
    by (simp add: p)
qed

lemma months_loop_map_of:
  "distinct (map fst bd) \<Longrightarrow>
   map_of (months_loop bd ms) (str m) =
     (case map_of bd m of Some items \<Rightarrow> Some (presents_of items) | None \<Rightarrow> map_of ms (str m))"
proof (induction bd arbitrary: ms)
  case Nil
  show ?case by simp
next
  case (Cons p bd)
  obtain m0 items0 where p: "p = (m0, items0)" by (cases p)
  from Cons.prems have fresh: "m0 \<notin> fst ` set bd" and dist: "distinct (map fst bd)"
    by (simp_all add: p)
  have ih: "map_of (months_loop bd (setitem (str m0) (presents_of items0) ms)) (str m) =
     (case map_of bd m of Some items \<Rightarrow> Some (presents_of items)
      | None \<Rightarrow> map_of (setitem (str m0) (presents_of items0) ms) (str m))"
    by (rule Cons.IH[OF dist])
  show ?case
  proof (cases "m = m0")
    case True
    with fresh have "map_of bd m = None" by (simp add: map_of_eq_None_iff)
    with ih True show ?thesis by (simp add: p setitem_map_of)
  next
    case False
    then have "str m \<noteq> str m0" using str_inj by blast
    with ih False show ?thesis by (simp add: p setitem_map_of split: option.splits)
  qed
qed

lemma months_loop_values:
  "(k, ps) \<in> set (months_loop bd ms) \<Longrightarrow>
     (k, ps) \<in> set ms \<or> (\<exists>m items. (m, items) \<in> set bd \<and> ps = presents_of items)"
proof (induction bd arbitrary: ms)
  case Nil
  then show ?case by simp
next
  case (Cons p bd)
  obtain m0 items0 where p: "p = (m0, items0)" by (cases p)
  from Cons.prems have "(k, ps) \<in> set (months_loop bd (setitem (str m0) (presents_of items0) ms))"
    by (simp add: p)
  from Cons.IH[OF this] show ?case
  proof
    assume "(k, ps) \<in> set (setitem (str m0) (presents_of items0) ms)"
    with setitem_set[of "str m0" "presents_of items0" ms]
    have "(k, ps) = (str m0, presents_of items0) \<or> (k, ps) \<in> set ms" by blast
    then show ?thesis by (auto simp: p)
  next
    assume "\<exists>m items. (m, items) \<in> set bd \<and> ps = presents_of items"
    then show ?thesis by (auto simp: p)
  qed
qed

lemma month_entries_aggregate: "month_entries (aggregate cs) m = presents_of (items_of cs m)"
proof -
  have d: "distinct (map fst (get_birthdays_data cs))"
    using data_wf[of cs] by (simp add: wf_data_def)
  show ?thesis
  proof (cases "map_of (get_birthdays_data cs) m")
    case (Some items)
    then show ?thesis
      by (simp add: month_entries_def aggregate_def get_birthdays_representation_def
          months_loop_map_of[OF d] items_of_def)
  next
    case None
    have "map_of months_init (str m) = None \<or> map_of months_init (str m) = Some []"
      using months_init_map_of[of "str m"] by (cases "map_of months_init (str m)") auto
    with None show ?thesis
      by (auto simp: month_entries_def aggregate_def get_birthdays_representation_def
          months_loop_map_of[OF d] items_of_def presents_of_def)
  qed
qed

lemma items_of_distinct: "distinct (map fst (items_of cs m))"
  using data_wf[of cs] by (auto simp: items_of_def wf_data_def split: option.splits)

lemma items_of_count:
  "(case map_of (items_of cs m) r of None \<Rightarrow> 0 | Some n \<Rightarrow> n) = gift_count cs m r"
  using data_cell[of cs m r] by (simp add: items_of_def cell_def split: option.splits)

lemma items_of_positive: "map_of (items_of cs m) r = Some n \<Longrightarrow> 1 \<le> n"
  using data_wf[of cs] by (auto simp: items_of_def wf_data_def split: option.splits)

lemma items_of_mem:
  "(r, n) \<in> set (items_of cs m) \<longleftrightarrow> 0 < gift_count cs m r \<and> n = gift_count cs m r"
proof -
  have iff: "(r, n) \<in> set (items_of cs m) \<longleftrightarrow> map_of (items_of cs m) r = Some n"
    using items_of_distinct[of cs m] by simp
  show ?thesis
  proof (cases "map_of (items_of cs m) r")
    case None
    with items_of_count[of cs m r] iff show ?thesis by simp
  next
    case (Some v)
    with items_of_count[of cs m r] items_of_positive[OF Some] iff show ?thesis by auto
  qed
qed

lemma presents_of_ids: "map citizen_id (presents_of items) = map fst items"
  by (simp add: presents_of_def case_prod_beta)

lemma presents_of_set:
  "set (presents_of items) = {\<lparr>citizen_id = r, presents = n\<rparr> | r n. (r, n) \<in> set items}"
  by (auto simp: presents_of_def)

lemma entries_char:
  "distinct (map citizen_id (month_entries (aggregate cs) m)) \<and>
   set (month_entries (aggregate cs) m) =
     {\<lparr>citizen_id = r, presents = gift_count cs m r\<rparr> | r. 0 < gift_count cs m r}"
proof
  show "distinct (map citizen_id (month_entries (aggregate cs) m))"
    by (simp add: month_entries_aggregate presents_of_ids items_of_distinct)
next
  show "set (month_entries (aggregate cs) m) =
     {\<lparr>citizen_id = r, presents = gift_count cs m r\<rparr> | r. 0 < gift_count cs m r}"
    by (simp add: month_entries_aggregate presents_of_set items_of_mem)
qed

section \<open>Properties of the aggregate\<close>

lemma example_valid: "valid_citizens example_citizens"
  by (simp add: valid_citizens_def valid_date_def example_citizens_def)

lemma aggregate_keys:
  assumes "valid_citizens cs"
  shows "map fst (data (aggregate cs)) = twelve_months"
proof -
  have "\<forall>m \<in> fst ` set (get_birthdays_data cs). str m \<in> set (map fst months_init)"
  proof
    fix m assume "m \<in> fst ` set (get_birthdays_data cs)"
    then obtain c where "c \<in> set cs" and m: "m = month (birth_date c)"
      by (auto simp: data_keys)
    with assms have "1 \<le> m \<and> m \<le> 12"
      by (simp add: valid_citizens_def valid_date_def list_all_iff)
    then show "str m \<in> set (map fst months_init)"
      by (simp only: months_init_keys str_month_key)
  qed
  then have "map fst (months_loop (get_birthdays_data cs) months_init) = map fst months_init"
    by (rule months_loop_keys)
  then show ?thesis
    by (simp add: aggregate_def get_birthdays_representation_def months_init_keys)
qed

lemma empty_month:
  assumes "1 \<le> m" and "m \<le> 12"
    and "\<forall>c \<in> set cs. month (birth_date c) = m \<longrightarrow> relatives c = []"
  shows "map_of (data (aggregate cs)) (str m) = Some []"
proof -
  have d: "distinct (map fst (get_birthdays_data cs))"
    using data_wf[of cs] by (simp add: wf_data_def)
  from assms(3) have "m \<notin> fst ` set (get_birthdays_data cs)"
    by (auto simp: data_keys)
  then have "map_of (get_birthdays_data cs) m = None"
    by (simp add: map_of_eq_None_iff)
  then show ?thesis
    by (simp add: aggregate_def get_birthdays_representation_def months_loop_map_of[OF d]
        months_init_month[OF assms(1,2)])
qed

lemma gift_count_mset:
  assumes "mset cs = mset cs'"
  shows "gift_count cs m r = gift_count cs' m r"
proof -
  let ?f = "\<lambda>c. if month (birth_date c) = m then int (count_list (relatives c) r) else 0"
  have "sum_list (map ?f cs) = sum_mset (image_mset ?f (mset cs))"
    by (simp add: sum_mset_sum_list flip: mset_map)
  also have "\<dots> = sum_mset (image_mset ?f (mset cs'))" by (simp only: assms)
  also have "\<dots> = sum_list (map ?f cs')"
    by (simp add: sum_mset_sum_list flip: mset_map)
  finally show ?thesis by (simp add: gift_count_def)
qed

lemma entries_distinct: "distinct (month_entries (aggregate cs) m)"
  using entries_char[of cs m] by (simp add: distinct_map)

lemma entries_mset:
  assumes "mset cs = mset cs'"
  shows "mset (month_entries (aggregate cs) m) = mset (month_entries (aggregate cs') m)"
proof -
  have "set (month_entries (aggregate cs) m) = set (month_entries (aggregate cs') m)"
    using entries_char[of cs m] entries_char[of cs' m] gift_count_mset[OF assms, of m]
    by simp
  with entries_distinct[of cs m] entries_distinct[of cs' m] show ?thesis
    by (simp add: set_eq_iff_mset_eq_distinct)
qed

lemma aggregate_key_set:
  "set (map fst (data (aggregate cs))) =
     set twelve_months \<union> str ` {month (birth_date c) | c. c \<in> set cs \<and> relatives c \<noteq> []}"
  by (simp only: aggregate_def get_birthdays_representation_def report.sel months_loop_key_set
      months_init_keys data_keys)

lemma data_values_positive:
  assumes "(m, items) \<in> set (get_birthdays_data cs)" and "(r, n) \<in> set items"
  shows "1 \<le> n"
proof -
  from data_wf[of cs] have d: "distinct (map fst (get_birthdays_data cs))"
    and inner: "\<And>m items. map_of (get_birthdays_data cs) m = Some items \<Longrightarrow>
        distinct (map fst items) \<and> (\<forall>r n. map_of items r = Some n \<longrightarrow> 1 \<le> n)"
    by (simp_all add: wf_data_def)
  from d assms(1) have "map_of (get_birthdays_data cs) m = Some items" by simp
  from inner[OF this] assms(2) show ?thesis by simp
qed

lemma aggregate_values_positive:
  assumes "(k, ps) \<in> set (data (aggregate cs))" and "p \<in> set ps"
  shows "1 \<le> presents p"
proof -
  from assms(1) have "(k, ps) \<in> set (months_loop (get_birthdays_data cs) months_init)"
    by (simp add: aggregate_def get_birthdays_representation_def)
  then have "(k, ps) \<in> set months_init \<or>
      (\<exists>m items. (m, items) \<in> set (get_birthdays_data cs) \<and> ps = presents_of items)"
    by (rule months_loop_values)
  then show ?thesis
  proof
    assume "(k, ps) \<in> set months_init"
    then have "ps = []" by (rule months_init_values)
    with assms(2) show ?thesis by simp
  next
    assume "\<exists>m items. (m, items) \<in> set (get_birthdays_data cs) \<and> ps = presents_of items"
    then obtain m items where mem: "(m, items) \<in> set (get_birthdays_data cs)"
      and ps: "ps = presents_of items" by blast
    from assms(2) ps obtain r n where "(r, n) \<in> set items" and "p = \<lparr>citizen_id = r, presents = n\<rparr>"
      by (auto simp: presents_of_set)
    with data_values_positive[OF mem] show ?thesis by simp
  qed
qed

lemma aggregate_example_eval:
  "aggregate example_citizens =
     Report
       [(''1'', []), (''2'', []),
        (''3'', [\<lparr>citizen_id = 2, presents = 2\<rparr>, \<lparr>citizen_id = 3, presents = 1\<rparr>]),
        (''4'', []), (''5'', []), (''6'', []), (''7'', []), (''8'', []), (''9'', []),
        (''10'', []), (''11'', []), (''12'', [])]"
  by (simp add: aggregate_def example_citizens_def get_birthdays_data_def
      get_birthdays_representation_def months_init_eq presents_of_def str_months)

section \<open>The handler under the two locks\<close>

lemma find_one_map_of: "find_one i docs = map_of docs i"
  by (induction docs) auto

lemma find_one_append:
  "find_one i (docs @ rest) = (case find_one i docs of Some d \<Rightarrow> Some d | None \<Rightarrow> find_one i rest)"
  by (induction docs) auto

lemma find_one_mem: "find_one i docs = Some d \<Longrightarrow> (i, d) \<in> set docs"
  by (induction docs) (auto split: if_splits)

lemma guarded_cases:
  "guarded import_id w =
     (if unavailable w FindBirthdays then (Inl StoreUnavailable, w)
      else case find_one import_id (birthdays_coll w) of
        Some ms \<Rightarrow> (Inr (Report ms, 201), w)
      | None \<Rightarrow>
          if unavailable w FindImport then (Inl StoreUnavailable, w)
          else case find_one import_id (imports_coll w) of
            None \<Rightarrow> (Inl NotFound, w)
          | Some cs \<Rightarrow>
              if unavailable w InsertBirthdays then (Inl StoreUnavailable, w)
              else (Inr (aggregate cs, 201),
                    w\<lparr>birthdays_coll := birthdays_coll w @ [(import_id, data (aggregate cs))]\<rparr>))"
  by (simp add: guarded_def get_cached_birthdays_def get_citizens_def cache_birthdays_data_def
      aggregate_def Let_def split: option.splits)

lemma guarded_frame:
  "guarded import_id (w\<lparr>held := h, events := e\<rparr>) =
     (fst (guarded import_id w), (snd (guarded import_id w))\<lparr>held := h, events := e\<rparr>)"
  by (simp add: guarded_cases split: option.splits)

lemma guarded_only_birthdays:
  "snd (guarded import_id w) = w\<lparr>birthdays_coll := birthdays_coll (snd (guarded import_id w))\<rparr>"
  by (simp add: guarded_cases split: option.splits)

lemma with_lock_held:
  "held w key = Some holder \<Longrightarrow> with_lock key owner expire timeout body w = (Inl LockTimeout, w)"
  by (simp add: with_lock_def lock_def)

lemma with_lock_free:
  assumes "held w key = None"
  shows "with_lock key owner expire timeout body w =
     (fst (body (w\<lparr>held := (held w)(key \<mapsto> owner),
                   events := events w @ [Acquire key owner expire timeout]\<rparr>)),
      release key owner
        (snd (body (w\<lparr>held := (held w)(key \<mapsto> owner),
                      events := events w @ [Acquire key owner expire timeout]\<rparr>))))"
  using assms by (simp add: with_lock_def lock_def split: prod.splits)

lemma nested_locks:
  assumes ab: "a \<noteq> b"
  shows "with_lock a own e1 t1 (with_lock b own e2 t2 (guarded import_id)) w =
     (case held w a of
        Some holder \<Rightarrow> (Inl LockTimeout, w)
      | None \<Rightarrow>
          (case held w b of
             Some holder \<Rightarrow>
               (Inl LockTimeout,
                w\<lparr>events := events w @ [Acquire a own e1 t1, Release a own]\<rparr>)
           | None \<Rightarrow>
               (fst (guarded import_id w),
                w\<lparr>birthdays_coll := birthdays_coll (snd (guarded import_id w)),
                  events := events w @
                   [Acquire a own e1 t1, Acquire b own e2 t2, Release b own, Release a own]\<rparr>)))"
proof (cases "held w a")
  case (Some holder)
  then show ?thesis by (simp add: with_lock_held)
next
  case None
  note a_free = this
  let ?w1 = "w\<lparr>held := (held w)(a \<mapsto> own), events := events w @ [Acquire a own e1 t1]\<rparr>"
  have undo_a: "(held w)(a := None) = held w"
    using a_free by (auto simp: fun_eq_iff)
  show ?thesis
  proof (cases "held w b")
    case (Some holder)
    then have "held ?w1 b = Some holder" using ab by simp
    then have inner: "with_lock b own e2 t2 (guarded import_id) ?w1 = (Inl LockTimeout, ?w1)"
      by (rule with_lock_held)
    show ?thesis
      using a_free Some undo_a
      by (simp add: with_lock_free[OF a_free] inner release_def)
  next
    case None
    note b_free = this
    have b_free1: "held ?w1 b = None" using b_free ab by simp
    have undo_b: "(held w)(a \<mapsto> own, b := None) = (held w)(a \<mapsto> own)"
      using b_free ab by (auto simp: fun_eq_iff)
    have g: "guarded import_id
        (?w1\<lparr>held := (held ?w1)(b \<mapsto> own), events := events ?w1 @ [Acquire b own e2 t2]\<rparr>) =
        (fst (guarded import_id w),
         (snd (guarded import_id w))\<lparr>held := (held w)(a \<mapsto> own, b \<mapsto> own),
            events := events w @ [Acquire a own e1 t1, Acquire b own e2 t2]\<rparr>)"
      using guarded_frame[where w = w and h = "(held w)(a \<mapsto> own, b \<mapsto> own)"
          and e = "events w @ [Acquire a own e1 t1, Acquire b own e2 t2]" and import_id = import_id]
      by simp
    have only: "snd (guarded import_id w) =
        w\<lparr>birthdays_coll := birthdays_coll (snd (guarded import_id w))\<rparr>"
      by (rule guarded_only_birthdays)
    have inner: "with_lock b own e2 t2 (guarded import_id) ?w1 =
        (fst (guarded import_id w),
         w\<lparr>birthdays_coll := birthdays_coll (snd (guarded import_id w)),
           held := (held w)(a \<mapsto> own),
           events := events w @ [Acquire a own e1 t1, Acquire b own e2 t2, Release b own]\<rparr>)"
      apply (simp only: with_lock_free[OF b_free1] g fst_conv snd_conv)
      apply (subst only)
      apply (simp add: release_def undo_b)
      done
    show ?thesis
      using a_free b_free ab undo_a
      by (simp add: with_lock_free[OF a_free] inner release_def)
  qed
qed

lemma get_birthdays_unfold:
  "get_birthdays import_id pid w =
     (case held w (str import_id) of
        Some holder \<Rightarrow> (Inl LockTimeout, w)
      | None \<Rightarrow>
          (case held w (''birthdays_'' @ str import_id) of
             Some holder \<Rightarrow>
               (Inl LockTimeout,
                w\<lparr>events := events w @
                   [Acquire (str import_id) (str pid) 60 10, Release (str import_id) (str pid)]\<rparr>)
           | None \<Rightarrow>
               (fst (guarded import_id w),
                w\<lparr>birthdays_coll := birthdays_coll (snd (guarded import_id w)),
                  events := events w @
                   [Acquire (str import_id) (str pid) 60 10,
                    Acquire (''birthdays_'' @ str import_id) (str pid) 60 10,
                    Release (''birthdays_'' @ str import_id) (str pid),
                    Release (str import_id) (str pid)]\<rparr>)))"
  unfolding get_birthdays_def by (rule nested_locks) (rule str_not_birthdays)

lemma get_birthdays_ok:
  assumes "find_one import_id (imports_coll w) = Some citizens"
    and "held w (str import_id) = None"
    and "held w (''birthdays_'' @ str import_id) = None"
    and "\<not> unavailable w FindBirthdays" and "\<not> unavailable w FindImport"
    and "\<not> unavailable w InsertBirthdays"
  shows "get_birthdays import_id pid w =
     (Inr (served import_id citizens w, 201),
      w\<lparr>birthdays_coll := stored import_id citizens w,
        events := events w @
          [Acquire (str import_id) (str pid) 60 10,
           Acquire (''birthdays_'' @ str import_id) (str pid) 60 10,
           Release (''birthdays_'' @ str import_id) (str pid),
           Release (str import_id) (str pid)]\<rparr>)"
  using assms
  by (simp add: get_birthdays_unfold guarded_cases served_def stored_def split: option.splits)

lemma served_again:
  "served import_id citizens (w\<lparr>birthdays_coll := stored import_id citizens w, events := e\<rparr>) =
     served import_id citizens w"
  by (simp add: served_def stored_def find_one_append split: option.splits)

lemma stored_again:
  "stored import_id citizens (w\<lparr>birthdays_coll := stored import_id citizens w, events := e\<rparr>) =
     stored import_id citizens w"
  by (simp add: stored_def find_one_append split: option.splits)

lemma stored_length: "length (stored import_id citizens w) \<le> length (birthdays_coll w) + 1"
  by (simp add: stored_def split: option.splits)

lemma seq_results:
  assumes "find_one import_id (imports_coll w) = Some citizens"
    and "held w (str import_id) = None"
    and "held w (''birthdays_'' @ str import_id) = None"
    and "\<not> unavailable w FindBirthdays" and "\<not> unavailable w FindImport"
    and "\<not> unavailable w InsertBirthdays"
  shows "fst (get_birthdays_seq import_id pids w) =
           replicate (length pids) (Inr (served import_id citizens w, 201)) \<and>
         birthdays_coll (snd (get_birthdays_seq import_id pids w)) =
           (if pids = [] then birthdays_coll w else stored import_id citizens w)"
  using assms
proof (induction pids arbitrary: w)
  case Nil
  show ?case by simp
next
  case (Cons pid pids)
  define w1 where "w1 = w\<lparr>birthdays_coll := stored import_id citizens w,
      events := events w @
          [Acquire (str import_id) (str pid) 60 10,
           Acquire (''birthdays_'' @ str import_id) (str pid) 60 10,
           Release (''birthdays_'' @ str import_id) (str pid),
           Release (str import_id) (str pid)]\<rparr>"
  have first: "get_birthdays import_id pid w = (Inr (served import_id citizens w, 201), w1)"
    unfolding w1_def using Cons.prems by (rule get_birthdays_ok)
  have ih: "fst (get_birthdays_seq import_id pids w1) =
           replicate (length pids) (Inr (served import_id citizens w1, 201)) \<and>
         birthdays_coll (snd (get_birthdays_seq import_id pids w1)) =
           (if pids = [] then birthdays_coll w1 else stored import_id citizens w1)"
    by (rule Cons.IH) (use Cons.prems in \<open>simp_all add: w1_def\<close>)
  have s1: "served import_id citizens w1 = served import_id citizens w"
    unfolding w1_def by (rule served_again)
  have s2: "stored import_id citizens w1 = stored import_id citizens w"
    unfolding w1_def by (rule stored_again)
  have s3: "birthdays_coll w1 = stored import_id citizens w"
    by (simp add: w1_def)
  from ih have rest: "fst (get_birthdays_seq import_id pids w1) =
           replicate (length pids) (Inr (served import_id citizens w, 201))"
    "birthdays_coll (snd (get_birthdays_seq import_id pids w1)) = stored import_id citizens w"
    by (simp_all add: s1 s2 s3 split: if_splits)
  then show ?case
    by (simp add: first case_prod_beta)
qed

lemma guarded_store:
  assumes "datasets_valid w"
  shows "birthdays_coll (snd (guarded import_id w)) = birthdays_coll w \<or>
     (\<exists>ms. normalized ms \<and> find_one import_id (birthdays_coll w) = None \<and>
        birthdays_coll (snd (guarded import_id w)) = birthdays_coll w @ [(import_id, ms)])"
proof (cases "find_one import_id (imports_coll w)")
  case None
  then show ?thesis by (simp add: guarded_cases split: option.splits)
next
  case (Some cs)
  then have "(import_id, cs) \<in> set (imports_coll w)" by (rule find_one_mem)
  with assms have "valid_citizens cs" by (auto simp: datasets_valid_def list_all_iff)
  then have "normalized (data (aggregate cs))" by (simp add: normalized_def aggregate_keys)
  with Some show ?thesis by (simp add: guarded_cases split: option.splits)
qed

lemma get_birthdays_store:
  "birthdays_coll (snd (get_birthdays import_id pid w)) = birthdays_coll w \<or>
   birthdays_coll (snd (get_birthdays import_id pid w)) = birthdays_coll (snd (guarded import_id w))"
  by (simp add: get_birthdays_unfold split: option.splits)

section \<open>The claims about the aggregator\<close>

text \<open>
  Claim C2. For the two residents of the spec's example (ids 1 and 4, which the
  projection drops), born on 2000-03-05 with relatives [2, 3] and on 2001-03-20 with
  relatives [2], the aggregation yields under month "3" the pairs (citizen 2, 2 presents)
  and (citizen 3, 1 present), and the empty list under each of the other eleven keys
  "1" to "12".
\<close>

theorem example_aggregate:
  "aggregate example_citizens =
     Report
       [(''1'', []), (''2'', []),
        (''3'', [\<lparr>citizen_id = 2, presents = 2\<rparr>, \<lparr>citizen_id = 3, presents = 1\<rparr>]),
        (''4'', []), (''5'', []), (''6'', []), (''7'', []), (''8'', []), (''9'', []),
        (''10'', []), (''11'', []), (''12'', [])]"
  by (rule aggregate_example_eval)

text \<open>
  Claim C3. For every list of residents and every month \<open>m\<close>, the list reported under
  the key of \<open>m\<close> has one pair per citizen id, and its pairs are exactly the pairs
  (\<open>r\<close>, number of occurrences of \<open>r\<close> in the relatives of the residents born in month
  \<open>m\<close>, duplicates counted) for the ids \<open>r\<close> that occur at least once: each occurrence
  adds one, and nothing else contributes.
\<close>

theorem presents_are_gift_counts:
  "distinct (map citizen_id (month_entries (aggregate citizens) m)) \<and>
   set (month_entries (aggregate citizens) m) =
     {\<lparr>citizen_id = r, presents = gift_count citizens m r\<rparr> | r. 0 < gift_count citizens m r}"
  by (rule entries_char)

text \<open>
  Claim C4. For every list of residents (the empty one included) whose birth dates are
  dates, the keys of the normalized output are exactly "1" to "12", in this order, and
  every month in which no resident with a relative entry is born is mapped to the
  empty list.
\<close>

theorem twelve_month_keys:
  assumes "valid_citizens citizens"
  shows "map fst (data (aggregate citizens)) = twelve_months \<and>
         (\<forall>m. 1 \<le> m \<and> m \<le> 12 \<and>
               (\<forall>c \<in> set citizens. month (birth_date c) = m \<longrightarrow> relatives c = [])
               \<longrightarrow> map_of (data (aggregate citizens)) (str m) = Some [])"
  using aggregate_keys[OF assms] empty_month[of _ citizens] by blast

theorem twelve_month_keys_witness:
  "valid_citizens [] \<and> map fst (data (aggregate [])) = twelve_months \<and>
   valid_citizens example_citizens \<and>
   map fst (data (aggregate example_citizens)) = twelve_months \<and>
   map_of (data (aggregate example_citizens)) (str 4) = Some []"
proof -
  have v0: "valid_citizens []" by (simp add: valid_citizens_def)
  have v1: "valid_citizens example_citizens" by (rule example_valid)
  have none: "\<forall>c \<in> set example_citizens. month (birth_date c) = 4 \<longrightarrow> relatives c = []"
    by (simp add: example_citizens_def)
  from twelve_month_keys[OF v0] twelve_month_keys[OF v1] none v0 v1 show ?thesis by simp
qed

text \<open>
  Claim C5. If one list of residents is a permutation of another, then under every
  month the two outputs hold the same multiset of (citizen id, presents) pairs, and
  the two outputs have the same keys.
\<close>

theorem aggregate_permutation:
  assumes "mset citizens = mset citizens'"
  shows "mset (month_entries (aggregate citizens) m) = mset (month_entries (aggregate citizens') m) \<and>
         set (map fst (data (aggregate citizens))) = set (map fst (data (aggregate citizens')))"
proof
  show "mset (month_entries (aggregate citizens) m) = mset (month_entries (aggregate citizens') m)"
    using assms by (rule entries_mset)
next
  from assms have "set citizens = set citizens'" by (rule mset_eq_setD)
  then show "set (map fst (data (aggregate citizens))) = set (map fst (data (aggregate citizens')))"
    by (simp only: aggregate_key_set)
qed

theorem aggregate_permutation_witness:
  "mset example_citizens = mset (rev example_citizens) \<and>
   mset (month_entries (aggregate example_citizens) 3) =
     mset (month_entries (aggregate (rev example_citizens)) 3)"
proof -
  have p: "mset example_citizens = mset (rev example_citizens)" by simp
  from aggregate_permutation[OF p, of 3] p show ?thesis by simp
qed

text \<open>
  Claim C10. Every pair in the normalized output, under whatever key, has at least one
  present, and a month of 1..12 in which residents are born but none of them lists a
  relative is mapped to the empty list.
\<close>

theorem presents_positive:
  "(\<forall>(k, ps) \<in> set (data (aggregate citizens)). \<forall>p \<in> set ps. 1 \<le> presents p) \<and>
   (\<forall>m. 1 \<le> m \<and> m \<le> 12 \<and>
         (\<forall>c \<in> set citizens. month (birth_date c) = m \<longrightarrow> relatives c = [])
         \<longrightarrow> map_of (data (aggregate citizens)) (str m) = Some [])"
  using aggregate_values_positive[of _ _ citizens] empty_month[of _ citizens] by blast

theorem presents_positive_witness:
  "(\<exists>c \<in> set example_lonely. month (birth_date c) = 7) \<and>
   filter (\<lambda>c. month (birth_date c) = 7 \<and> relatives c \<noteq> []) example_lonely = [] \<and>
   map_of (data (aggregate example_lonely)) (str 7) = Some [] \<and>
   list_all (\<lambda>p. 1 \<le> presents p) (month_entries (aggregate example_lonely) 3) \<and>
   month_entries (aggregate example_lonely) 3 \<noteq> []"
proof -
  have born: "\<exists>c \<in> set example_lonely. month (birth_date c) = 7"
    by (simp add: example_lonely_def)
  have none: "\<forall>c \<in> set example_lonely. month (birth_date c) = 7 \<longrightarrow> relatives c = []"
    by (simp add: example_lonely_def example_citizens_def)
  have flt: "filter (\<lambda>c. month (birth_date c) = 7 \<and> relatives c \<noteq> []) example_lonely = []"
    by (simp add: example_lonely_def example_citizens_def)
  have ev: "aggregate example_lonely = aggregate example_citizens"
    by (simp add: aggregate_def example_lonely_def example_citizens_def get_birthdays_data_def)
  have three: "map_of (data (aggregate example_lonely)) (str 3) =
      Some [\<lparr>citizen_id = 2, presents = 2\<rparr>, \<lparr>citizen_id = 3, presents = 1\<rparr>]"
    by (simp add: ev aggregate_example_eval str_months)
  then have mem: "(str 3, [\<lparr>citizen_id = 2, presents = 2\<rparr>, \<lparr>citizen_id = 3, presents = 1\<rparr>])
      \<in> set (data (aggregate example_lonely))"
    by (rule map_of_SomeD)
  from presents_positive[of example_lonely] have
    pos: "\<forall>(k, ps) \<in> set (data (aggregate example_lonely)). \<forall>p \<in> set ps. 1 \<le> presents p"
    and emp: "\<forall>m. 1 \<le> m \<and> m \<le> 12 \<and>
         (\<forall>c \<in> set example_lonely. month (birth_date c) = m \<longrightarrow> relatives c = [])
         \<longrightarrow> map_of (data (aggregate example_lonely)) (str m) = Some []"
    by blast+
  from emp none have e7: "map_of (data (aggregate example_lonely)) (str 7) = Some []" by simp
  from pos mem have "\<forall>p \<in> set [\<lparr>citizen_id = 2, presents = 2\<rparr>, \<lparr>citizen_id = 3, presents = 1\<rparr>].
      1 \<le> presents p" by blast
  with three born flt e7 show ?thesis by (simp add: month_entries_def)
qed


section \<open>The claims about the handler\<close>

text \<open>
  Claim C7. In every world and whatever the outcome of the guarded section (cache hit,
  fresh computation, \<open>NotFound\<close> or a failing database call), a call of
  \<^verbatim>\<open>get_birthdays\<close> that obtains both leases performs exactly these lock operations,
  in this order: acquire the lease on \<^verbatim>\<open>str(import_id)\<close>, acquire the lease on
  \<^verbatim>\<open>"birthdays_" + str(import_id)\<close>, each with expire 60 and timeout 10, release the
  second, release the first. When the second lease is not obtained the first is acquired
  and released; when the first is not obtained nothing is acquired. In every case the
  set of leases held afterwards is the one held before.
\<close>

theorem lock_discipline:
  "events (snd (get_birthdays import_id pid w)) =
     events w @
       (case held w (str import_id) of
          Some holder \<Rightarrow> []
        | None \<Rightarrow>
            (case held w (''birthdays_'' @ str import_id) of
               Some holder \<Rightarrow>
                 [Acquire (str import_id) (str pid) 60 10, Release (str import_id) (str pid)]
             | None \<Rightarrow>
                 [Acquire (str import_id) (str pid) 60 10,
                  Acquire (''birthdays_'' @ str import_id) (str pid) 60 10,
                  Release (''birthdays_'' @ str import_id) (str pid),
                  Release (str import_id) (str pid)])) \<and>
   held (snd (get_birthdays import_id pid w)) = held w"
  by (simp add: get_birthdays_unfold split: option.splits)

text \<open>
  Claim C9. Whenever \<^verbatim>\<open>get_birthdays\<close> returns a result, on the cache-hit path as on the
  fresh-computation path, the status code is 201.
\<close>

theorem status_201:
  "fst (get_birthdays import_id pid w) = Inr (rep, status) \<Longrightarrow> status = 201"
  by (auto simp: get_birthdays_unfold guarded_cases split: option.splits if_splits)

theorem status_201_witness:
  "(\<exists>rep. fst (get_birthdays 1 100 example_world) = Inr (rep, 201)) \<and>
   (\<exists>rep. fst (get_birthdays 1 101 (snd (get_birthdays 1 100 example_world))) = Inr (rep, 201)) \<and>
   find_one 1 (birthdays_coll example_world) = None \<and>
   find_one 1 (birthdays_coll (snd (get_birthdays 1 100 example_world))) \<noteq> None"
proof -
  let ?w1 = "snd (get_birthdays 1 100 example_world)"
  have first: "get_birthdays 1 100 example_world =
      (Inr (served 1 example_citizens example_world, 201),
       example_world\<lparr>birthdays_coll := stored 1 example_citizens example_world,
         events := events example_world @
          [Acquire (str 1) (str 100) 60 10, Acquire (''birthdays_'' @ str 1) (str 100) 60 10,
           Release (''birthdays_'' @ str 1) (str 100), Release (str 1) (str 100)]\<rparr>)"
    by (rule get_birthdays_ok) (simp_all add: example_world_def)
  then have w1: "?w1 = example_world\<lparr>birthdays_coll := stored 1 example_citizens example_world,
         events := events example_world @
          [Acquire (str 1) (str 100) 60 10, Acquire (''birthdays_'' @ str 1) (str 100) 60 10,
           Release (''birthdays_'' @ str 1) (str 100), Release (str 1) (str 100)]\<rparr>"
    by simp
  have second: "get_birthdays 1 101 ?w1 =
      (Inr (served 1 example_citizens ?w1, 201),
       ?w1\<lparr>birthdays_coll := stored 1 example_citizens ?w1,
         events := events ?w1 @
          [Acquire (str 1) (str 101) 60 10, Acquire (''birthdays_'' @ str 1) (str 101) 60 10,
           Release (''birthdays_'' @ str 1) (str 101), Release (str 1) (str 101)]\<rparr>)"
    by (rule get_birthdays_ok) (simp_all add: w1, simp_all add: example_world_def)
  have h1: "fst (get_birthdays 1 100 example_world) =
      Inr (served 1 example_citizens example_world, snd (projr (fst (get_birthdays 1 100 example_world))))"
    by (simp add: first)
  have h2: "fst (get_birthdays 1 101 ?w1) =
      Inr (served 1 example_citizens ?w1, snd (projr (fst (get_birthdays 1 101 ?w1))))"
    by (simp add: second)
  from status_201[OF h1] h1 have c1: "\<exists>rep. fst (get_birthdays 1 100 example_world) = Inr (rep, 201)"
    by auto
  from status_201[OF h2] h2 have c2: "\<exists>rep. fst (get_birthdays 1 101 ?w1) = Inr (rep, 201)"
    by auto
  have c3: "find_one 1 (birthdays_coll example_world) = None" by (simp add: example_world_def)
  have c4: "find_one 1 (birthdays_coll ?w1) \<noteq> None"
    by (simp add: w1 stored_def c3 find_one_append)
  from c1 c2 c3 c4 show ?thesis by blast
qed

text \<open>
  Claim C6. For an import id with no dataset and no cached aggregate (the two leases
  free, the two reads available), \<^verbatim>\<open>get_birthdays\<close> fails with \<open>NotFound\<close>, the error of
  the dataset read, and the collection \<^verbatim>\<open>db['birthdays']\<close> is afterwards exactly what it
  was before.
\<close>

theorem missing_dataset_not_found:
  assumes "find_one import_id (imports_coll w) = None"
    and "find_one import_id (birthdays_coll w) = None"
    and "held w (str import_id) = None"
    and "held w (''birthdays_'' @ str import_id) = None"
    and "\<not> unavailable w FindBirthdays" and "\<not> unavailable w FindImport"
  shows "fst (get_birthdays import_id pid w) = Inl NotFound \<and>
         birthdays_coll (snd (get_birthdays import_id pid w)) = birthdays_coll w"
  using assms by (simp add: get_birthdays_unfold guarded_cases)

theorem missing_dataset_not_found_witness:
  "find_one 2 (imports_coll example_world) = None \<and>
   find_one 2 (birthdays_coll example_world) = None \<and>
   held example_world (str 2) = None \<and>
   held example_world (''birthdays_'' @ str 2) = None \<and>
   \<not> unavailable example_world FindBirthdays \<and> \<not> unavailable example_world FindImport \<and>
   fst (get_birthdays 2 100 example_world) = Inl NotFound \<and>
   birthdays_coll (snd (get_birthdays 2 100 example_world)) = []"
proof -
  have h: "find_one 2 (imports_coll example_world) = None"
    "find_one 2 (birthdays_coll example_world) = None"
    "held example_world (str 2) = None"
    "held example_world (''birthdays_'' @ str 2) = None"
    "\<not> unavailable example_world FindBirthdays" "\<not> unavailable example_world FindImport"
    by (simp_all add: example_world_def)
  have e: "birthdays_coll example_world = []" by (simp add: example_world_def)
  from missing_dataset_not_found[OF h, of 100] h e show ?thesis by simp
qed

text \<open>
  Claim C8. In a world whose stored birth dates are dates and whose stored aggregates
  all have the twelve keys, a call of \<^verbatim>\<open>get_birthdays\<close>, whatever its outcome, leaves
  every stored aggregate with the twelve keys; it leaves the collection unchanged or
  appends exactly one document, for this import id, with the twelve keys, and only when
  none was stored for it; so afterwards the import id has either no stored aggregate or
  one with the twelve keys.
\<close>

theorem stored_aggregates_normalized:
  assumes "datasets_valid w" and "store_normalized w"
  shows "store_normalized (snd (get_birthdays import_id pid w)) \<and>
         (birthdays_coll (snd (get_birthdays import_id pid w)) = birthdays_coll w \<or>
          (\<exists>ms. normalized ms \<and> find_one import_id (birthdays_coll w) = None \<and>
             birthdays_coll (snd (get_birthdays import_id pid w)) =
               birthdays_coll w @ [(import_id, ms)])) \<and>
         (case find_one import_id (birthdays_coll (snd (get_birthdays import_id pid w))) of
            None \<Rightarrow> True
          | Some ms \<Rightarrow> normalized ms)"
proof -
  let ?after = "birthdays_coll (snd (get_birthdays import_id pid w))"
  have step: "?after = birthdays_coll w \<or>
      (\<exists>ms. normalized ms \<and> find_one import_id (birthdays_coll w) = None \<and>
         ?after = birthdays_coll w @ [(import_id, ms)])"
    using get_birthdays_store[of import_id pid w] guarded_store[OF assms(1), of import_id]
    by auto
  with assms(2) have inv: "list_all (\<lambda>(i, ms). normalized ms) ?after"
    by (auto simp: store_normalized_def)
  have "case find_one import_id ?after of None \<Rightarrow> True | Some ms \<Rightarrow> normalized ms"
  proof (cases "find_one import_id ?after")
    case None
    then show ?thesis by simp
  next
    case (Some ms)
    then have "(import_id, ms) \<in> set ?after" by (rule find_one_mem)
    with inv have "normalized ms" by (auto simp: list_all_iff)
    with Some show ?thesis by simp
  qed
  with step inv show ?thesis by (simp add: store_normalized_def)
qed

theorem stored_aggregates_normalized_witness:
  "datasets_valid example_world \<and> store_normalized example_world \<and>
   store_normalized (snd (get_birthdays 1 100 example_world)) \<and>
   birthdays_coll (snd (get_birthdays 1 100 example_world)) =
     [(1, data (aggregate example_citizens))] \<and>
   normalized (data (aggregate example_citizens))"
proof -
  have v: "datasets_valid example_world"
    by (simp add: datasets_valid_def example_world_def example_valid)
  have n: "store_normalized example_world"
    by (simp add: store_normalized_def example_world_def)
  have first: "get_birthdays 1 100 example_world =
      (Inr (served 1 example_citizens example_world, 201),
       example_world\<lparr>birthdays_coll := stored 1 example_citizens example_world,
         events := events example_world @
          [Acquire (str 1) (str 100) 60 10, Acquire (''birthdays_'' @ str 1) (str 100) 60 10,
           Release (''birthdays_'' @ str 1) (str 100), Release (str 1) (str 100)]\<rparr>)"
    by (rule get_birthdays_ok) (simp_all add: example_world_def)
  then have st: "birthdays_coll (snd (get_birthdays 1 100 example_world)) =
      [(1, data (aggregate example_citizens))]"
    by (simp add: stored_def example_world_def)
  from stored_aggregates_normalized[OF v n, of 1 100]
  have after: "store_normalized (snd (get_birthdays 1 100 example_world))" by blast
  then have "normalized (data (aggregate example_citizens))"
    by (simp add: store_normalized_def st)
  with v n after st show ?thesis by simp
qed

text \<open>
  Claim C1. For an import whose dataset exists (leases free, database available), any
  number of sequential calls of \<^verbatim>\<open>get_birthdays\<close> all return the same aggregate with
  status 201, namely the cached one if there was one and the fresh one otherwise; the
  collection \<^verbatim>\<open>db['birthdays']\<close> after the calls is the collection after the first call,
  which holds at most one document more than before: the insert happens at most once.
\<close>

theorem get_birthdays_idempotent:
  assumes "find_one import_id (imports_coll w) = Some citizens"
    and "held w (str import_id) = None"
    and "held w (''birthdays_'' @ str import_id) = None"
    and "\<not> unavailable w FindBirthdays" and "\<not> unavailable w FindImport"
    and "\<not> unavailable w InsertBirthdays"
  shows "fst (get_birthdays_seq import_id pids w) =
           replicate (length pids) (Inr (served import_id citizens w, 201)) \<and>
         birthdays_coll (snd (get_birthdays_seq import_id pids w)) =
           (if pids = [] then birthdays_coll w else stored import_id citizens w) \<and>
         length (birthdays_coll (snd (get_birthdays_seq import_id pids w)))
           \<le> length (birthdays_coll w) + 1"
  using seq_results[OF assms, of pids] stored_length[of import_id citizens w] by simp

theorem get_birthdays_idempotent_witness:
  "find_one 1 (imports_coll example_world) = Some example_citizens \<and>
   held example_world (str 1) = None \<and>
   held example_world (''birthdays_'' @ str 1) = None \<and>
   \<not> unavailable example_world FindBirthdays \<and> \<not> unavailable example_world FindImport \<and>
   \<not> unavailable example_world InsertBirthdays \<and>
   fst (get_birthdays_seq 1 [100, 101, 102] example_world) =
     [Inr (aggregate example_citizens, 201), Inr (aggregate example_citizens, 201),
      Inr (aggregate example_citizens, 201)] \<and>
   birthdays_coll (snd (get_birthdays_seq 1 [100, 101, 102] example_world)) =
     [(1, data (aggregate example_citizens))]"
proof -
  have h: "find_one 1 (imports_coll example_world) = Some example_citizens"
    "held example_world (str 1) = None"
    "held example_world (''birthdays_'' @ str 1) = None"
    "\<not> unavailable example_world FindBirthdays" "\<not> unavailable example_world FindImport"
    "\<not> unavailable example_world InsertBirthdays"
    by (simp_all add: example_world_def)
  have s: "served 1 example_citizens example_world = aggregate example_citizens"
    "stored 1 example_citizens example_world = [(1, data (aggregate example_citizens))]"
    by (simp_all add: served_def stored_def example_world_def)
  from get_birthdays_idempotent[OF h, of "[100, 101, 102]"] h s show ?thesis
    by (simp add: numeral_3_eq_3)
qed

end
